theory Spec2Isabelle
  imports Complex_Main "HOL-Library.Word"
begin

section \<open>JavaScript values\<close>

text \<open>
  A JavaScript string is a sequence of UTF-16 code units. The regular expression of the
  webhook handler has no \<open>u\<close> flag, so it works on code units, and \<open>split(" ")\<close> splits at
  the code unit 0x20.
\<close>

type_synonym code_unit = "16 word"

type_synonym jsstring = "code_unit list"

definition lit :: "string \<Rightarrow> jsstring" where
  "lit s = map of_char s"

text \<open>
  The values a parsed JSON body can hold, and \<open>undefined\<close>, which a read of a missing
  property gives. An object is the list of its own properties in iteration order (keys
  distinct). A number is its numeric value: the handlers only test numbers for being zero
  and copy them.
\<close>

datatype jsval =
    Undefined
  | Null
  | Bool bool
  | Num real
  | Str jsstring
  | Arr "jsval list"
  | Obj "(jsstring \<times> jsval) list"

datatype thrown = TypeError | Rejection jsstring

fun truthy :: "jsval \<Rightarrow> bool" where
  "truthy Undefined = False"
| "truthy Null = False"
| "truthy (Bool b) = b"
| "truthy (Num n) = (n \<noteq> 0)"
| "truthy (Str s) = (s \<noteq> [])"
| "truthy (Arr xs) = True"
| "truthy (Obj kvs) = True"

text \<open>\<open>a || b\<close>\<close>

definition or_js :: "jsval \<Rightarrow> jsval \<Rightarrow> jsval" where
  "or_js a b = (if truthy a then a else b)"

text \<open>
  \<open>v?.k\<close> for the keys the handlers read (\<open>note\<close>, \<open>name\<close>, \<open>id\<close>, \<open>line_items\<close>,
  \<open>variant_id\<close>, \<open>quantity\<close>, \<open>order\<close>): none of them is a property of an array, a string,
  a number or a boolean.
\<close>

fun opt_member :: "jsval \<Rightarrow> string \<Rightarrow> jsval" where
  "opt_member (Obj kvs) k = (case map_of kvs (lit k) of Some x \<Rightarrow> x | None \<Rightarrow> Undefined)"
| "opt_member v k = Undefined"

text \<open>\<open>v.k\<close>: reading a property of \<open>undefined\<close> or \<open>null\<close> throws a TypeError.\<close>

fun member :: "jsval \<Rightarrow> string \<Rightarrow> thrown + jsval" where
  "member Undefined k = Inl TypeError"
| "member Null k = Inl TypeError"
| "member v k = Inr (opt_member v k)"

text \<open>
  Whether \<open>ToString(v)\<close> returns, as in a template literal \<open>`${v}`\<close>. A primitive value
  converts. An array converts through \<open>join\<close>, which converts its elements (and takes
  \<open>null\<close> for the empty text). An object converts to \<open>[object Object]\<close> through the
  inherited \<open>toString\<close>, unless it has a property \<open>toString\<close> of its own: a parsed JSON
  value is never callable, the inherited \<open>valueOf\<close> returns the object itself, and the
  conversion throws a TypeError.
\<close>

fun convertible :: "jsval \<Rightarrow> bool" where
  "convertible (Arr xs) = list_all convertible xs"
| "convertible (Obj kvs) = (map_of kvs (lit ''toString'') = None)"
| "convertible v = True"

text \<open>
  The substitution \<open>${v}\<close> of a template literal: it throws when the value does not
  convert; the text it gives is not spelled out and stands as the value it converts.
\<close>

definition interpolate :: "jsval \<Rightarrow> thrown + jsval" where
  "interpolate v = (if convertible v then Inr v else Inl TypeError)"

text \<open>\<open>order?.name || order?.id\<close>, which the log lines and the tag substitute.\<close>

definition order_label :: "jsval \<Rightarrow> jsval" where
  "order_label order = or_js (opt_member order ''name'') (opt_member order ''id'')"

section \<open>The CSV link in the note\<close>

text \<open>The code units that \<open>\s\<close> matches: white space and line terminators.\<close>

definition is_space :: "code_unit \<Rightarrow> bool" where
  "is_space c \<longleftrightarrow>
     c = 0x09 \<or> c = 0x0A \<or> c = 0x0B \<or> c = 0x0C \<or> c = 0x0D \<or> c = 0x20 \<or> c = 0xA0 \<or>
     c = 0x1680 \<or> (0x2000 \<le> c \<and> c \<le> 0x200A) \<or> c = 0x2028 \<or> c = 0x2029 \<or>
     c = 0x202F \<or> c = 0x205F \<or> c = 0x3000 \<or> c = 0xFEFF"

text \<open>
  \<open>note.match(/https:\/\/[^\s]+\.csv/)\<close>. At a start position the engine matches the
  literal \<open>https://\<close>, lets \<open>[^\s]+\<close> take the whole run of non-space code units, and gives
  code units back one at a time until \<open>.csv\<close> follows (\<open>backtrack\<close>, with \<open>n\<close> the number of
  code units \<open>[^\s]+\<close> holds, at least one). The first start position that matches wins;
  \<open>csvUrlMatch\<close> is the matched text \<open>csvUrlMatch[0]\<close>, or \<open>None\<close> for \<open>null\<close>.
\<close>

fun backtrack :: "nat \<Rightarrow> jsstring \<Rightarrow> jsstring option" where
  "backtrack 0 run = None"
| "backtrack (Suc n) run =
     (if take 4 (drop (Suc n) run) = lit ''.csv'' then Some (take (Suc n + 4) run)
      else backtrack n run)"

definition match_here :: "jsstring \<Rightarrow> jsstring option" where
  "match_here s =
     (if take 8 s = lit ''https://'' then
        (let run = takeWhile (\<lambda>c. \<not> is_space c) (drop 8 s)
         in map_option (\<lambda>m. lit ''https://'' @ m) (backtrack (length run) run))
      else None)"

fun csvUrlMatch :: "jsstring \<Rightarrow> jsstring option" where
  "csvUrlMatch [] = None"
| "csvUrlMatch (c # s) =
     (case match_here (c # s) of Some m \<Rightarrow> Some m | None \<Rightarrow> csvUrlMatch s)"

text \<open>
  The spec's wording of the same test: the note contains a substring \<open>https://\<close>, then one
  or more code units that are not white space, then \<open>.csv\<close>.
\<close>

definition contains_csv_url :: "jsstring \<Rightarrow> bool" where
  "contains_csv_url note \<longleftrightarrow>
     (\<exists>pre mid post. note = pre @ lit ''https://'' @ mid @ lit ''.csv'' @ post \<and>
        mid \<noteq> [] \<and> (\<forall>c \<in> set mid. \<not> is_space c))"

section \<open>CSV rows and the child order built from one\<close>

text \<open>A row as csv-parser emits it: column name to cell text.\<close>

type_synonym row = "(jsstring \<times> jsstring) list"

text \<open>\<open>row.k\<close>, with \<open>None\<close> for \<open>undefined\<close>.\<close>

definition field :: "row \<Rightarrow> string \<Rightarrow> jsstring option" where
  "field r k = map_of r (lit k)"

text \<open>\<open>row.k || d\<close>: the default replaces a missing cell and an empty one.\<close>

definition or_default :: "jsstring option \<Rightarrow> jsstring \<Rightarrow> jsstring" where
  "or_default x d = (case x of None \<Rightarrow> d | Some s \<Rightarrow> if s = [] then d else s)"

text \<open>
  \<open>const [firstName, ...rest] = fullName.split(" ")\<close>: the array \<open>split\<close> returns is never
  empty, so it is given as its first element and the others.
\<close>

fun split_space :: "jsstring \<Rightarrow> jsstring \<times> jsstring list" where
  "split_space [] = ([], [])"
| "split_space (c # s) =
     (let (t, ts) = split_space s
      in if c = 0x20 then ([], t # ts) else (c # t, ts))"

text \<open>\<open>rest.join(" ")\<close>\<close>

fun join_space :: "jsstring list \<Rightarrow> jsstring" where
  "join_space [] = []"
| "join_space [t] = t"
| "join_space (t # u # ts) = t @ 0x20 # join_space (u # ts)"

record line_item =
  variant_id :: jsval
  quantity :: jsval

record customer =
  first_name :: jsstring
  last_name :: jsstring
  email :: jsstring

record shipping_address =
  name :: jsstring
  address1 :: jsstring
  address2 :: jsstring
  city :: jsstring
  province :: jsstring
  zip' :: jsstring
  country :: jsstring

text \<open>
  The text of a template literal with one substitution, \<open>`text${v}`\<close>, for a value \<open>v\<close>
  that converts.
\<close>

datatype template = Template jsstring jsval

record child_order =
  line_items :: "line_item list"
  customer :: customer
  shipping_address :: shipping_address
  financial_status :: jsstring
  tags :: template

text \<open>
  \<open>items.map((item) => ({variant_id: item.variant_id, quantity: item.quantity || 1}))\<close>:
  an item that is \<open>null\<close> throws.
\<close>

fun map_items :: "jsval list \<Rightarrow> thrown + line_item list" where
  "map_items [] = Inr []"
| "map_items (item # items) =
     (case member item ''variant_id'' of
        Inl e \<Rightarrow> Inl e
      | Inr v \<Rightarrow>
          (case map_items items of
             Inl e \<Rightarrow> Inl e
           | Inr ls \<Rightarrow>
               Inr (\<lparr>variant_id = v, quantity = or_js (opt_member item ''quantity'') (Num 1)\<rparr>
                    # ls)))"

text \<open>
  \<open>order.line_items?.map(...) || []\<close>: a missing or \<open>null\<close> \<open>line_items\<close> gives the empty
  list; a value that is not an array has no \<open>map\<close>, and calling it throws.
\<close>

definition map_line_items :: "jsval \<Rightarrow> thrown + line_item list" where
  "map_line_items order =
     (case member order ''line_items'' of
        Inl e \<Rightarrow> Inl e
      | Inr Undefined \<Rightarrow> Inr []
      | Inr Null \<Rightarrow> Inr []
      | Inr (Arr items) \<Rightarrow> map_items items
      | Inr _ \<Rightarrow> Inl TypeError)"

definition fullName :: "row \<Rightarrow> jsstring" where
  "fullName r = or_default (field r ''name'') (lit ''Gift Recipient'')"

definition customer_of :: "row \<Rightarrow> customer" where
  "customer_of r =
     (let (firstName, rest) = split_space (fullName r);
          lastName = or_default (Some (join_space rest)) (lit ''Recipient'')
      in \<lparr>first_name = firstName, last_name = lastName,
          email = or_default (field r ''email'') (lit ''placeholder@example.com'')\<rparr>)"

text \<open>
  The object literal \<open>newOrder\<close>, its properties evaluated in the order they are written:
  mapping the line items may throw, and so may the substitution in the tag.
\<close>

definition newOrder :: "jsval \<Rightarrow> row \<Rightarrow> thrown + child_order" where
  "newOrder order r =
     (case map_line_items order of
        Inl e \<Rightarrow> Inl e
      | Inr items \<Rightarrow>
          (case interpolate (order_label order) of
             Inl e \<Rightarrow> Inl e
           | Inr label \<Rightarrow>
               Inr \<lparr>line_items = items,
                    customer = customer_of r,
                    shipping_address =
                      \<lparr>name = fullName r,
                       address1 = or_default (field r ''address1'') [],
                       address2 = or_default (field r ''address2'') [],
                       city = or_default (field r ''city'') [],
                       province = or_default (field r ''state'') [],
                       zip' = or_default (field r ''zip'') [],
                       country = lit ''United States''\<rparr>,
                    financial_status = lit ''paid'',
                    tags = Template (lit ''Created from CSV of order '') label\<rparr>))"

section \<open>The world outside the handler\<close>

text \<open>
  What \<open>https.get(csvUrl, callback)\<close> piped through \<open>csvParser()\<close> can do:
  \<^item> \<open>GetThrew\<close>: \<open>https.get\<close> throws on the URL, inside the promise's executor, so the
    promise rejects;
  \<^item> \<open>RequestError\<close>: no connection; the request object emits \<open>error\<close>, to which the
    handler attaches no listener, and the callback never runs, so the promise never settles;
  \<^item> \<open>Response status p\<close>: the callback runs, whatever the status, and the body goes
    through the parser, which emits the rows and \<open>end\<close>, or \<open>error\<close>.
\<close>

datatype parsed = Rows "row list" | ParseError

datatype fetched = GetThrew | RequestError | Response nat parsed

text \<open>An \<open>axios.post\<close> resolves with the response's \<open>data\<close> or rejects with a message.\<close>

datatype settled = Resolved jsval | Rejected jsstring

text \<open>
  The platform is a state machine of any state type \<open>'w\<close>: each call answers and moves it.
\<close>

record 'w upstream =
  https_get :: "jsstring \<Rightarrow> fetched"
  post_order :: "'w \<Rightarrow> child_order \<Rightarrow> settled \<times> 'w"
  post_cancel :: "'w \<Rightarrow> jsval \<Rightarrow> settled \<times> 'w"

text \<open>
  The outbound calls: \<open>https.get(csvUrl, ...)\<close>, \<open>POST .../orders.json\<close> with a child
  order, and \<open>POST .../orders/${order.id}/cancel.json\<close> with the identifier it substitutes.
\<close>

datatype call = HttpsGet jsstring | CreateOrder child_order | CancelOrder jsval

text \<open>
  \<open>{success: true, orderName, address}\<close> and \<open>{success: false, error, row}\<close>.
\<close>

datatype result = Success jsval "jsstring option" | Failure thrown row

datatype body =
    Text jsstring
  | Attachment jsstring jsstring
  | ErrorJson jsstring
  | Processed jsstring "result list"

record response =
  status :: nat
  body :: body

section \<open>POST /process-csv-orders\<close>

text \<open>
  The repository holds three copies of this handler. The model follows the first
  (\<open>index.js\<close>, lines 57 to 173); the unnamed copy has the same statements in its handler,
  with another API version in the URLs. The second copy in \<open>index.js\<close> lacks the first log
  line and the log line after \<open>results.push\<close>.
\<close>

text \<open>
  What the inner \<open>try\<close> and its \<open>catch\<close> push to \<open>results\<close> once the call has settled.
  A rejected call gives a failure record. Reading \<open>createRes.data.order.name\<close> may throw,
  before anything is pushed: a failure record. After the success record is pushed, the log
  line substitutes \<open>${createRes.data.order.name}\<close>, still inside the \<open>try\<close>: when that
  throws, the \<open>catch\<close> pushes a failure record for the same row as well.
\<close>

definition result_of :: "settled \<Rightarrow> row \<Rightarrow> result list" where
  "result_of out r =
     (case out of
        Rejected msg \<Rightarrow> [Failure (Rejection msg) r]
      | Resolved data \<Rightarrow>
          (case member data ''order'' of
             Inl e \<Rightarrow> [Failure e r]
           | Inr ord \<Rightarrow>
               (case member ord ''name'' of
                  Inl e \<Rightarrow> [Failure e r]
                | Inr n \<Rightarrow>
                    (case interpolate n of
                       Inl e \<Rightarrow> [Success n (field r ''address1''), Failure e r]
                     | Inr logged \<Rightarrow> [Success n (field r ''address1'')]))))"

record 'w progress =
  results :: "result list"
  calls :: "call list"
  world :: 'w

text \<open>
  \<open>for (const row of rows) { ... }\<close>: building the child order is outside the inner
  \<open>try\<close>, so what it throws leaves the loop (\<open>Some e\<close>), with the calls made so far.
\<close>

fun create_orders ::
  "('w \<Rightarrow> child_order \<Rightarrow> settled \<times> 'w) \<Rightarrow> jsval \<Rightarrow> row list \<Rightarrow> 'w progress
     \<Rightarrow> thrown option \<times> 'w progress" where
  "create_orders post order [] p = (None, p)"
| "create_orders post order (r # rs) p =
     (case newOrder order r of
        Inl e \<Rightarrow> (Some e, p)
      | Inr req \<Rightarrow>
          (let (out, w) = post (world p) req
           in create_orders post order rs
                \<lparr>results = results p @ result_of out r,
                 calls = calls p @ [CreateOrder req],
                 world = w\<rparr>))"

record 'w outcome =
  response :: "response option"
  issued :: "call list"
  world_after :: 'w

definition skipped :: response where
  "skipped = \<lparr>status = 200, body = Text (lit ''No CSV file in note '' @ 0x2014 # lit '' skipping'')\<rparr>"

definition internal_error :: response where
  "internal_error = \<lparr>status = 500, body = ErrorJson (lit ''Internal server error'')\<rparr>"

definition processed :: "result list \<Rightarrow> response" where
  "processed rs = \<lparr>status = 200, body = Processed (lit ''Orders processed and parent canceled'') rs\<rparr>"

text \<open>
  The outer \<open>catch\<close>: it answers HTTP 500; the calls made so far stay made.
\<close>

definition outer_catch :: "call list \<Rightarrow> 'w \<Rightarrow> 'w outcome" where
  "outer_catch cs w = \<lparr>response = Some internal_error, issued = cs, world_after = w\<rparr>"

text \<open>
  The cancellation \<open>try\<close>. The URL substitutes \<open>${order.id}\<close>: when reading or converting
  it throws, no call is made, the log line of the \<open>catch\<close> substitutes it again and throws
  in turn, and the outer \<open>catch\<close> answers. Otherwise the call is made once, and whether it
  resolves or rejects, the \<open>try\<close> or the \<open>catch\<close> only logs (with the identifier that has
  converted already) and the results are sent.
\<close>

definition cancel_parent :: "'w upstream \<Rightarrow> jsval \<Rightarrow> 'w progress \<Rightarrow> 'w outcome" where
  "cancel_parent env order p =
     (case member order ''id'' of
        Inl e \<Rightarrow> outer_catch (calls p) (world p)
      | Inr ident \<Rightarrow>
          (case interpolate ident of
             Inl e \<Rightarrow> outer_catch (calls p) (world p)
           | Inr converted \<Rightarrow>
               (let (out, w) = post_cancel env (world p) ident
                in \<lparr>response = Some (processed (results p)),
                    issued = calls p @ [CancelOrder ident],
                    world_after = w\<rparr>)))"

text \<open>
  After \<open>await fetchCsv()\<close>: the loop over the rows, then the cancellation, from the empty
  \<open>results\<close> and the calls made so far.
\<close>

definition split_order ::
  "'w upstream \<Rightarrow> jsval \<Rightarrow> row list \<Rightarrow> 'w progress \<Rightarrow> 'w outcome" where
  "split_order env order rows p0 =
     (case create_orders (post_order env) order rows p0 of
        (Some e, p) \<Rightarrow> outer_catch (calls p) (world p)
      | (None, p) \<Rightarrow> cancel_parent env order p)"

text \<open>
  The handler, all of it inside the outer \<open>try\<close>. Its first line logs
  \<open>`Processing order ${order?.name || order?.id}`\<close>, and the skip branch logs the same
  substitution again. \<open>order?.note || ""\<close> is a string, or a truthy value that is not one
  and has no \<open>match\<close> (TypeError). The other log lines substitute numbers and texts, or
  hand their values to the console unconverted.
\<close>

definition process_csv_orders :: "'w upstream \<Rightarrow> jsval \<Rightarrow> 'w \<Rightarrow> 'w outcome" where
  "process_csv_orders env order w =
     (case interpolate (order_label order) of
        Inl e \<Rightarrow> outer_catch [] w
      | Inr processing \<Rightarrow>
          (case or_js (opt_member order ''note'') (Str []) of
             Str note \<Rightarrow>
               (case csvUrlMatch note of
                  None \<Rightarrow>
                    (case interpolate (order_label order) of
                       Inl e \<Rightarrow> outer_catch [] w
                     | Inr skipping \<Rightarrow>
                         \<lparr>response = Some skipped, issued = [], world_after = w\<rparr>)
                | Some csvUrl \<Rightarrow>
                    (case https_get env csvUrl of
                       GetThrew \<Rightarrow> outer_catch [HttpsGet csvUrl] w
                     | RequestError \<Rightarrow>
                         \<lparr>response = None, issued = [HttpsGet csvUrl], world_after = w\<rparr>
                     | Response st ParseError \<Rightarrow> outer_catch [HttpsGet csvUrl] w
                     | Response st (Rows rows) \<Rightarrow>
                         split_order env order rows
                           \<lparr>results = [], calls = [HttpsGet csvUrl], world = w\<rparr>))
           | _ \<Rightarrow> outer_catch [] w))"

section \<open>POST /generate-csv\<close>

fun digits :: "nat \<Rightarrow> jsstring" where
  "digits n = (if n < 10 then [of_nat (48 + n)] else digits (n div 10) @ [of_nat (48 + n mod 10)])"

text \<open>\<open>Object.keys(v)\<close>: the indices of an array or a string, nothing for a number.\<close>

fun object_keys :: "jsval \<Rightarrow> thrown + jsstring list" where
  "object_keys Undefined = Inl TypeError"
| "object_keys Null = Inl TypeError"
| "object_keys (Obj kvs) = Inr (map fst kvs)"
| "object_keys (Arr xs) = Inr (map digits [0..<length xs])"
| "object_keys (Str s) = Inr (map digits [0..<length s])"
| "object_keys v = Inr []"

text \<open>
  The handler, with json2csv's \<open>new Parser({fields}).parse(data)\<close> as the parameter
  \<open>parse\<close>, which returns the CSV text or throws.
\<close>

definition generate_csv ::
  "(jsstring list \<Rightarrow> jsval list \<Rightarrow> thrown + jsstring) \<Rightarrow> jsval \<Rightarrow> response" where
  "generate_csv parse data =
     (case data of
        Arr (first # others) \<Rightarrow>
          (case object_keys first of
             Inl e \<Rightarrow> \<lparr>status = 500, body = Text (lit ''Internal Server Error'')\<rparr>
           | Inr fields' \<Rightarrow>
               (case parse fields' (first # others) of
                  Inl e \<Rightarrow> \<lparr>status = 500, body = Text (lit ''Internal Server Error'')\<rparr>
                | Inr csv \<Rightarrow> \<lparr>status = 200, body = Attachment (lit ''order_history.csv'') csv\<rparr>))
      | _ \<Rightarrow> \<lparr>status = 400, body = Text (lit ''Invalid data'')\<rparr>)"

section \<open>The claims in the spec's words\<close>

text \<open>
  A result record belongs to a row: a success record carries the row's \<open>address1\<close>, a
  failure record the row itself.
\<close>

definition records_row :: "result \<Rightarrow> row \<Rightarrow> bool" where
  "records_row res r \<longleftrightarrow>
     (\<exists>n. res = Success n (field r ''address1'')) \<or> (\<exists>e. res = Failure e r)"

text \<open>
  The platform's answers to a sequence of creation calls, from the state \<open>w\<close> on, each
  call moving the platform; and the state they leave.
\<close>

fun answers :: "('w \<Rightarrow> child_order \<Rightarrow> settled \<times> 'w) \<Rightarrow> 'w \<Rightarrow> child_order list \<Rightarrow> settled list" where
  "answers post w [] = []"
| "answers post w (req # reqs) = fst (post w req) # answers post (snd (post w req)) reqs"

fun after_calls :: "('w \<Rightarrow> child_order \<Rightarrow> settled \<times> 'w) \<Rightarrow> 'w \<Rightarrow> child_order list \<Rightarrow> 'w" where
  "after_calls post w [] = w"
| "after_calls post w (req # reqs) = after_calls post (snd (post w req)) reqs"


text \<open>
  Line items carried verbatim: the variant identifier and the quantity of each item, as
  they are in the payload.
\<close>

definition verbatim_line_items :: "jsval list \<Rightarrow> line_item list" where
  "verbatim_line_items items =
     map (\<lambda>item. \<lparr>variant_id = opt_member item ''variant_id'',
                   quantity = opt_member item ''quantity''\<rparr>) items"

text \<open>
  The name split rule as the spec words it: the last name is the remaining tokens joined
  by spaces, and \<open>Recipient\<close> when there are no remaining tokens. An absent name and a
  row without an email are read as the cell being missing or empty.
\<close>

definition spec_customer :: "row \<Rightarrow> customer" where
  "spec_customer r =
     (let (first, remaining) =
            split_space (or_default (field r ''name'') (lit ''Gift Recipient''))
      in \<lparr>first_name = first,
          last_name = (if remaining = [] then lit ''Recipient'' else join_space remaining),
          email = or_default (field r ''email'') (lit ''placeholder@example.com'')\<rparr>)"

section \<open>Example requests\<close>

definition jane :: row where
  "jane = [(lit ''name'', lit ''Jane Doe''), (lit ''email'', lit ''jane@x.com''),
           (lit ''address1'', lit ''1 Main St''), (lit ''city'', lit ''Austin''),
           (lit ''state'', lit ''TX''), (lit ''zip'', lit ''73301'')]"

definition bob :: row where
  "bob = [(lit ''name'', lit ''Bob''), (lit ''address1'', lit ''2 Oak Rd''),
          (lit ''city'', lit ''Dallas''), (lit ''state'', lit ''TX''),
          (lit ''zip'', lit ''75201'')]"

definition bob_trailing_space :: row where
  "bob_trailing_space = [(lit ''name'', lit ''Bob '')]"

definition list_url :: jsstring where
  "list_url = lit ''https://cdn.io/l.csv''"

definition gift_order :: jsval where
  "gift_order =
     Obj [(lit ''id'', Num 7),
          (lit ''name'', Str (lit ''#1001'')),
          (lit ''note'', Str (lit ''see https://cdn.io/l.csv for addresses'')),
          (lit ''line_items'',
             Arr [Obj [(lit ''variant_id'', Num 42), (lit ''quantity'', Num 2)]])]"

definition plain_order :: jsval where
  "plain_order =
     Obj [(lit ''id'', Num 8), (lit ''note'', Str (lit ''leave at the door''))]"

text \<open>A payload with no note, whose name has a \<open>toString\<close> property and no callable one.\<close>

definition unlabelled_payload :: jsval where
  "unlabelled_payload =
     Obj [(lit ''id'', Str (lit ''8'')), (lit ''name'', Obj [(lit ''toString'', Str (lit ''x''))])]"

definition zero_quantity_item :: jsval where
  "zero_quantity_item = Obj [(lit ''variant_id'', Num 42), (lit ''quantity'', Num 0)]"

definition zero_quantity_order :: jsval where
  "zero_quantity_order = Obj [(lit ''id'', Num 9), (lit ''line_items'', Arr [zero_quantity_item])]"

text \<open>The platform's answer to a creation call that succeeds.\<close>

definition created :: jsval where
  "created = Obj [(lit ''order'', Obj [(lit ''name'', Str (lit ''#2001''))])]"

text \<open>
  A platform that counts the calls it has answered: it creates the first child order and
  refuses every later one with a 422; it cancels. The CSV host serves two rows.
\<close>

definition shop :: "nat upstream" where
  "shop =
     \<lparr>https_get = (\<lambda>url. Response 200 (Rows [jane, bob])),
      post_order = (\<lambda>n req. (if n = 0 then Resolved created
                               else Rejected (lit ''Request failed with status code 422''),
                              Suc n)),
      post_cancel = (\<lambda>n ident. (Resolved (Obj []), Suc n))\<rparr>"

definition refuse_cancel :: "nat \<Rightarrow> jsval \<Rightarrow> settled \<times> nat" where
  "refuse_cancel n ident = (Rejected (lit ''Request failed with status code 404''), Suc n)"

text \<open>
  The same platform when the CSV host answers 404 with a body that holds no row, when it
  cannot be reached, and when the parser fails on the body.
\<close>

definition csv_not_found :: "nat upstream" where
  "csv_not_found = shop\<lparr>https_get := (\<lambda>url. Response 404 (Rows []))\<rparr>"

definition csv_unreachable :: "nat upstream" where
  "csv_unreachable = shop\<lparr>https_get := (\<lambda>url. RequestError)\<rparr>"

definition csv_unparsable :: "nat upstream" where
  "csv_unparsable = shop\<lparr>https_get := (\<lambda>url. Response 200 ParseError)\<rparr>"

text \<open>A json2csv stand-in that always returns some text.\<close>

definition any_parser :: "jsstring list \<Rightarrow> jsval list \<Rightarrow> thrown + jsstring" where
  "any_parser fields' rows = Inr (join_space fields')"

section \<open>The regular expression finds what the spec describes\<close>

lemma length_lit [simp]: "length (lit s) = length s"
  by (simp add: lit_def)

lemma csv_suffix_no_space: "c \<in> set (lit ''.csv'') \<Longrightarrow> \<not> is_space c"
  by (auto simp add: lit_def is_space_def)

lemma backtrack_None_iff:
  "backtrack n run = None \<longleftrightarrow> (\<forall>k. 1 \<le> k \<and> k \<le> n \<longrightarrow> take 4 (drop k run) \<noteq> lit ''.csv'')"
proof (induction n)
  case 0
  then show ?case by simp
next
  case (Suc n)
  have "(\<forall>k. 1 \<le> k \<and> k \<le> Suc n \<longrightarrow> take 4 (drop k run) \<noteq> lit ''.csv'') \<longleftrightarrow>
        take 4 (drop (Suc n) run) \<noteq> lit ''.csv'' \<and>
        (\<forall>k. 1 \<le> k \<and> k \<le> n \<longrightarrow> take 4 (drop k run) \<noteq> lit ''.csv'')"
    by (auto simp: le_Suc_eq)
  with Suc show ?case by simp
qed

lemma match_here_None_iff:
  "match_here s = None \<longleftrightarrow>
     \<not> (\<exists>mid post. s = lit ''https://'' @ mid @ lit ''.csv'' @ post \<and>
          mid \<noteq> [] \<and> (\<forall>c \<in> set mid. \<not> is_space c))"
proof
  assume none: "match_here s = None"
  show "\<not> (\<exists>mid post. s = lit ''https://'' @ mid @ lit ''.csv'' @ post \<and>
          mid \<noteq> [] \<and> (\<forall>c \<in> set mid. \<not> is_space c))"
  proof
    assume "\<exists>mid post. s = lit ''https://'' @ mid @ lit ''.csv'' @ post \<and>
          mid \<noteq> [] \<and> (\<forall>c \<in> set mid. \<not> is_space c)"
    then obtain mid post where s: "s = lit ''https://'' @ mid @ lit ''.csv'' @ post"
      and mid: "mid \<noteq> []" and ns: "\<forall>c \<in> set mid. \<not> is_space c"
      by blast
    define run where "run = takeWhile (\<lambda>c. \<not> is_space c) (drop 8 s)"
    have pre: "take 8 s = lit ''https://''" by (simp add: s)
    have tail: "drop 8 s = (mid @ lit ''.csv'') @ post" by (simp add: s)
    have "takeWhile (\<lambda>c. \<not> is_space c) ((mid @ lit ''.csv'') @ post) =
        (mid @ lit ''.csv'') @ takeWhile (\<lambda>c. \<not> is_space c) post"
      by (rule takeWhile_append2) (use ns csv_suffix_no_space in auto)
    then have run: "run = (mid @ lit ''.csv'') @ takeWhile (\<lambda>c. \<not> is_space c) post"
      unfolding run_def tail .
    have "take 4 (drop (length mid) run) = lit ''.csv''"
      by (simp add: run)
    moreover have "1 \<le> length mid" using mid by (cases mid) auto
    moreover have "length mid \<le> length run" by (simp add: run)
    ultimately have "backtrack (length run) run \<noteq> None"
      unfolding backtrack_None_iff by blast
    then have "match_here s \<noteq> None"
      by (simp add: match_here_def pre run_def Let_def)
    with none show False by simp
  qed
next
  assume no: "\<not> (\<exists>mid post. s = lit ''https://'' @ mid @ lit ''.csv'' @ post \<and>
          mid \<noteq> [] \<and> (\<forall>c \<in> set mid. \<not> is_space c))"
  show "match_here s = None"
  proof (rule ccontr)
    assume some: "match_here s \<noteq> None"
    define run where "run = takeWhile (\<lambda>c. \<not> is_space c) (drop 8 s)"
    from some have pre: "take 8 s = lit ''https://''"
      by (auto simp: match_here_def split: if_splits)
    from some have "backtrack (length run) run \<noteq> None"
      by (auto simp: match_here_def run_def Let_def split: if_splits)
    then obtain k where k: "1 \<le> k" "k \<le> length run" "take 4 (drop k run) = lit ''.csv''"
      unfolding backtrack_None_iff by blast
    have "run = take k run @ take 4 (drop k run) @ drop 4 (drop k run)"
      by (simp only: append_take_drop_id)
    then have run: "run = take k run @ lit ''.csv'' @ drop 4 (drop k run)"
      using k(3) by simp
    have "s = take 8 s @ drop 8 s" by simp
    also have "drop 8 s = run @ dropWhile (\<lambda>c. \<not> is_space c) (drop 8 s)"
      by (simp add: run_def)
    finally have "s = lit ''https://'' @ take k run @ lit ''.csv'' @
        (drop 4 (drop k run) @ dropWhile (\<lambda>c. \<not> is_space c) (drop 8 s))"
      using pre run by (metis append.assoc)
    moreover have "take k run \<noteq> []" using k by auto
    moreover have "\<forall>c \<in> set (take k run). \<not> is_space c"
      by (metis in_set_takeD run_def set_takeWhileD)
    ultimately show False using no by blast
  qed
qed

lemma csvUrlMatch_None_iff: "csvUrlMatch s = None \<longleftrightarrow> \<not> contains_csv_url s"
proof (induction s)
  case Nil
  show ?case by (simp add: contains_csv_url_def lit_def)
next
  case (Cons c s)
  have step: "contains_csv_url (c # s) \<longleftrightarrow> match_here (c # s) \<noteq> None \<or> contains_csv_url s"
  proof
    assume "contains_csv_url (c # s)"
    then obtain pre mid post where
      eq: "c # s = pre @ lit ''https://'' @ mid @ lit ''.csv'' @ post"
      and mid: "mid \<noteq> []" "\<forall>c \<in> set mid. \<not> is_space c"
      unfolding contains_csv_url_def by blast
    show "match_here (c # s) \<noteq> None \<or> contains_csv_url s"
    proof (cases pre)
      case Nil
      with eq mid have "match_here (c # s) \<noteq> None"
        unfolding match_here_None_iff by auto
      then show ?thesis ..
    next
      case (Cons d pre')
      with eq have "s = pre' @ lit ''https://'' @ mid @ lit ''.csv'' @ post" by simp
      with mid have "contains_csv_url s" unfolding contains_csv_url_def by blast
      then show ?thesis ..
    qed
  next
    assume "match_here (c # s) \<noteq> None \<or> contains_csv_url s"
    then show "contains_csv_url (c # s)"
    proof
      assume "match_here (c # s) \<noteq> None"
      then obtain mid post where "c # s = [] @ lit ''https://'' @ mid @ lit ''.csv'' @ post"
        "mid \<noteq> []" "\<forall>c \<in> set mid. \<not> is_space c"
        unfolding match_here_None_iff by auto
      then show ?thesis unfolding contains_csv_url_def by blast
    next
      assume "contains_csv_url s"
      then obtain pre mid post where "s = pre @ lit ''https://'' @ mid @ lit ''.csv'' @ post"
        "mid \<noteq> []" "\<forall>c \<in> set mid. \<not> is_space c"
        unfolding contains_csv_url_def by blast
      then have "c # s = (c # pre) @ lit ''https://'' @ mid @ lit ''.csv'' @ post" by simp
      then show ?thesis using \<open>mid \<noteq> []\<close> \<open>\<forall>c \<in> set mid. \<not> is_space c\<close>
        unfolding contains_csv_url_def by blast
    qed
  qed
  show ?case using Cons.IH by (auto simp: step split: option.splits)
qed


section \<open>The loop over the rows\<close>

lemma note_string_is_object:
  "opt_member order k = Str s \<Longrightarrow> \<exists>kvs. order = Obj kvs"
  by (cases order) simp_all

lemma newOrder_Inr:
  "map_line_items order = Inr items \<Longrightarrow> convertible (order_label order) \<Longrightarrow>
   \<exists>req. newOrder order r = Inr req \<and> line_items req = items"
  by (simp add: newOrder_def interpolate_def)

lemma result_of_records_row: "res \<in> set (result_of out r) \<Longrightarrow> records_row res r"
  by (auto simp: result_of_def records_row_def interpolate_def
      split: settled.splits sum.splits if_splits)


lemma answers_length [simp]: "length (answers post w reqs) = length reqs"
  by (induction reqs arbitrary: w) simp_all



text \<open>
  A loop that ends has built one child order per row, called the platform with each, in
  row order, each call from the state the one before left, and pushed what the platform's
  answers give.
\<close>

lemma create_orders_None:
  "create_orders post order rows p = (None, p') \<Longrightarrow>
   \<exists>reqs. list_all2 (\<lambda>r req. newOrder order r = Inr req) rows reqs \<and>
      calls p' = calls p @ map CreateOrder reqs \<and>
      world p' = after_calls post (world p) reqs \<and>
      results p' = results p @ concat (map2 result_of (answers post (world p) reqs) rows)"
proof (induction rows arbitrary: p)
  case Nil
  then show ?case by simp
next
  case (Cons r rows)
  from Cons.prems obtain req where req: "newOrder order r = Inr req"
    by (cases "newOrder order r") auto
  define q where "q = \<lparr>results = results p @ result_of (fst (post (world p) req)) r,
                 calls = calls p @ [CreateOrder req], world = snd (post (world p) req)\<rparr>"
  have "create_orders post order rows q = (None, p')"
    using Cons.prems req by (simp add: q_def case_prod_beta)
  from Cons.IH [OF this] obtain reqs where
    rel: "list_all2 (\<lambda>r req. newOrder order r = Inr req) rows reqs"
    and cs: "calls p' = calls q @ map CreateOrder reqs"
    and ws: "world p' = after_calls post (world q) reqs"
    and res: "results p' = results q @ concat (map2 result_of (answers post (world q) reqs) rows)"
    by blast
  have "list_all2 (\<lambda>r req. newOrder order r = Inr req) (r # rows) (req # reqs)"
    using rel req by simp
  moreover have "calls p' = calls p @ map CreateOrder (req # reqs)"
    using cs by (simp add: q_def)
  moreover have "world p' = after_calls post (world p) (req # reqs)"
    using ws by (simp add: q_def)
  moreover have "results p' =
      results p @ concat (map2 result_of (answers post (world p) (req # reqs)) (r # rows))"
    using res by (simp add: q_def)
  ultimately show ?case by blast
qed

lemma create_orders_completes:
  "map_line_items order = Inr items \<Longrightarrow> convertible (order_label order) \<Longrightarrow>
   \<exists>p'. create_orders post order rows p = (None, p')"
proof (induction rows arbitrary: p)
  case Nil
  then show ?case by simp
next
  case (Cons r rows)
  from newOrder_Inr [OF Cons.prems] obtain req where req: "newOrder order r = Inr req"
    by blast
  define q where "q = \<lparr>results = results p @ result_of (fst (post (world p) req)) r,
                 calls = calls p @ [CreateOrder req], world = snd (post (world p) req)\<rparr>"
  from Cons.IH [OF Cons.prems, of q] obtain p' where
    "create_orders post order rows q = (None, p')"
    by blast
  then have "create_orders post order (r # rows) p = (None, p')"
    using req by (simp add: q_def case_prod_beta)
  then show ?case by blast
qed

lemma process_reaches_split:
  assumes "opt_member order ''note'' = Str note" "csvUrlMatch note = Some url"
    "https_get env url = Response st (Rows rows)" "convertible (order_label order)"
  shows "process_csv_orders env order w =
     split_order env order rows \<lparr>results = [], calls = [HttpsGet url], world = w\<rparr>"
proof -
  from assms(2) have "note \<noteq> []" by auto
  then have "or_js (opt_member order ''note'') (Str []) = Str note"
    using assms(1) by (simp add: or_js_def)
  then show ?thesis using assms(2,3,4) by (simp add: process_csv_orders_def interpolate_def)
qed

text \<open>
  A run that reaches the cancellation step with an identifier that converts: the
  cancellation call is applied once, to the state the loop left, and the loop's results are
  sent whatever it answers.
\<close>

lemma split_order_cancels:
  assumes "create_orders (post_order env) order rows p0 = (None, p)"
    and "order = Obj kvs" and "convertible (opt_member order ''id'')"
  shows "split_order env order rows p0 =
     \<lparr>response = Some (processed (results p)),
      issued = calls p @ [CancelOrder (opt_member order ''id'')],
      world_after = snd (post_cancel env (world p) (opt_member order ''id''))\<rparr>"
  using assms by (simp add: split_order_def cancel_parent_def interpolate_def split: prod.splits)


subsection \<open>Evaluating the examples\<close>

lemma gift_order_note:
  "opt_member gift_order ''note'' = Str (lit ''see https://cdn.io/l.csv for addresses'')"
  by (simp add: gift_order_def lit_def)

lemma gift_order_match:
  "csvUrlMatch (lit ''see https://cdn.io/l.csv for addresses'') = Some list_url"
  by (simp add: lit_def match_here_def is_space_def list_url_def)

lemma gift_order_items:
  "map_line_items gift_order = Inr [\<lparr>variant_id = Num 42, quantity = Num 2\<rparr>]"
  by (simp add: map_line_items_def gift_order_def lit_def or_js_def)

lemma gift_order_id: "opt_member gift_order ''id'' = Num 7"
  by (simp add: gift_order_def lit_def)

lemma plain_order_note: "opt_member plain_order ''note'' = Str (lit ''leave at the door'')"
  by (simp add: plain_order_def lit_def)

lemma plain_note_no_match: "csvUrlMatch (lit ''leave at the door'') = None"
  by (simp add: lit_def match_here_def)

subsection \<open>Splitting and joining\<close>

lemma join_space_Cons: "join_space ((c # t) # ts) = c # join_space (t # ts)"
  by (cases ts) simp_all

lemma split_space_join: "split_space s = (t, ts) \<Longrightarrow> join_space (t # ts) = s"
proof (induction s arbitrary: t ts)
  case Nil
  then show ?case by simp
next
  case (Cons c s)
  obtain u us where u: "split_space s = (u, us)" by (cases "split_space s")
  with Cons.IH have "join_space (u # us) = s" by blast
  with Cons.prems u show ?case
    by (auto simp: join_space_Cons split: if_splits)
qed

lemma split_space_tokens:
  "split_space s = (t, ts) \<Longrightarrow> u \<in> set (t # ts) \<Longrightarrow> 0x20 \<notin> set u"
proof (induction s arbitrary: t ts u)
  case Nil
  then show ?case by simp
next
  case (Cons c s)
  obtain v vs where v: "split_space s = (v, vs)" by (cases "split_space s")
  with Cons.IH have ih: "\<And>x. x \<in> set (v # vs) \<Longrightarrow> 0x20 \<notin> set x" by blast
  show ?case
  proof (cases "c = 0x20")
    case True
    with Cons.prems v have "t = []" "ts = v # vs" by auto
    with Cons.prems(2) ih show ?thesis by auto
  next
    case False
    with Cons.prems v have "t = c # v" "ts = vs" by auto
    with Cons.prems(2) ih False show ?thesis by auto
  qed
qed

lemma split_space_single: "0x20 \<notin> set t \<Longrightarrow> split_space t = (t, [])"
  by (induction t) auto

lemma split_space_unique:
  "\<forall>u \<in> set (t # ts). 0x20 \<notin> set u \<Longrightarrow> split_space (join_space (t # ts)) = (t, ts)"
proof (induction ts arbitrary: t)
  case Nil
  then show ?case by (simp add: split_space_single)
next
  case (Cons v vs)
  then have tail: "split_space (join_space (v # vs)) = (v, vs)" by simp
  from Cons.prems have "0x20 \<notin> set t" by simp
  then show ?case
    by (induction t) (simp_all add: tail)
qed

lemma name_tokens_exist:
  "\<exists>first remaining. join_space (first # remaining) = fullName r \<and>
     (\<forall>token \<in> set (first # remaining). 0x20 \<notin> set token)"
proof -
  obtain t ts where split: "split_space (fullName r) = (t, ts)"
    by (cases "split_space (fullName r)")
  from split_space_join [OF split] split_space_tokens [OF split] show ?thesis
    by blast
qed

lemma csvUrlMatch_Some_iff: "(\<exists>url. csvUrlMatch s = Some url) \<longleftrightarrow> contains_csv_url s"
  using csvUrlMatch_None_iff [of s] by (cases "csvUrlMatch s") simp_all

subsection \<open>Mapping the line items\<close>

lemma member_not_null: "v \<noteq> Null \<Longrightarrow> v \<noteq> Undefined \<Longrightarrow> member v k = Inr (opt_member v k)"
  by (cases v) simp_all

lemma map_items_objects:
  "\<forall>item \<in> set items. item \<noteq> Null \<and> item \<noteq> Undefined \<Longrightarrow>
   map_items items =
     Inr (map (\<lambda>item. \<lparr>variant_id = opt_member item ''variant_id'',
                        quantity = or_js (opt_member item ''quantity'') (Num 1)\<rparr>) items)"
  by (induction items) (simp_all add: member_not_null)

text \<open>
  The line items can be mapped exactly when \<open>line_items\<close> is missing, \<open>null\<close>, or an
  array that holds no \<open>null\<close>.
\<close>

lemma map_items_Inr_iff:
  "(\<exists>ls. map_items items = Inr ls) \<longleftrightarrow> (\<forall>item \<in> set items. item \<noteq> Null \<and> item \<noteq> Undefined)"
proof (induction items)
  case Nil
  show ?case by simp
next
  case (Cons item items)
  show ?case
  proof (cases "item = Null \<or> item = Undefined")
    case True
    then show ?thesis by auto
  next
    case False
    then have "member item ''variant_id'' = Inr (opt_member item ''variant_id'')"
      by (simp add: member_not_null)
    with False Cons.IH show ?thesis
      by (cases "map_items items") auto
  qed
qed

lemma map_line_items_Inr_iff:
  "(\<exists>ls. map_line_items order = Inr ls) \<longleftrightarrow>
     order \<noteq> Null \<and> order \<noteq> Undefined \<and>
     (case opt_member order ''line_items'' of
        Undefined \<Rightarrow> True
      | Null \<Rightarrow> True
      | Arr items \<Rightarrow> (\<forall>item \<in> set items. item \<noteq> Null \<and> item \<noteq> Undefined)
      | _ \<Rightarrow> False)"
proof (cases "order = Null \<or> order = Undefined")
  case True
  then show ?thesis by (auto simp: map_line_items_def)
next
  case False
  then have "member order ''line_items'' = Inr (opt_member order ''line_items'')"
    by (simp add: member_not_null)
  with False show ?thesis
    by (cases "opt_member order ''line_items''")
      (simp_all add: map_line_items_def map_items_Inr_iff)
qed

subsection \<open>What /generate-csv hands to json2csv\<close>

lemma generate_csv_columns:
  "generate_csv parse (Arr (Obj kvs # others)) =
     (case parse (map fst kvs) (Obj kvs # others) of
        Inl e \<Rightarrow> \<lparr>status = 500, body = Text (lit ''Internal Server Error'')\<rparr>
      | Inr csv \<Rightarrow> \<lparr>status = 200, body = Attachment (lit ''order_history.csv'') csv\<rparr>)"
  by (simp add: generate_csv_def)

subsection \<open>More of the examples\<close>

lemma gift_order_label: "convertible (order_label gift_order)"
  by (simp add: order_label_def gift_order_def or_js_def lit_def)

lemma gift_order_id_converts: "convertible (opt_member gift_order ''id'')"
  by (simp add: gift_order_def lit_def)

lemma plain_order_label: "convertible (order_label plain_order)"
  by (simp add: order_label_def plain_order_def or_js_def lit_def)


lemma shop_counts_calls: "after_calls (post_order shop) n reqs = n + length reqs"
  by (induction reqs arbitrary: n) (simp_all add: shop_def)

text \<open>
  The answer whose order name does not convert: the success record is pushed, the log line
  throws, and the same row gets a failure record as well.
\<close>

lemma unconvertible_name_two_records:
  "result_of (Resolved (Obj [(lit ''order'', unlabelled_payload)])) bob =
     [Success (Obj [(lit ''toString'', Str (lit ''x''))]) (Some (lit ''2 Oak Rd'')),
      Failure TypeError bob]"
  by (simp add: result_of_def unlabelled_payload_def interpolate_def field_def bob_def lit_def)

section \<open>The order-split workflow\<close>

text \<open>
  C1. For a webhook order whose note holds a CSV link (\<open>url\<close> is the text the handler
  extracts), whose CSV is decoded into \<open>rows\<close>, whose line items can be mapped and whose
  name and identifier convert to text: the handler fetches the CSV, then issues exactly
  one creation call per row, in row order, each with the child order built from that row,
  then exactly one cancellation call for the parent's identifier, whatever the platform
  answers to the creation calls. The platform has answered just these calls: it is left in
  the state the cancellation call gives after the creation calls, one after the other.
\<close>

theorem one_creation_per_row_then_one_cancellation:
  assumes "opt_member order ''note'' = Str note"
    and "csvUrlMatch note = Some url"
    and "https_get env url = Response st (Rows rows)"
    and "map_line_items order = Inr items"
    and "convertible (order_label order)"
    and "convertible (opt_member order ''id'')"
  shows "\<exists>reqs. list_all2 (\<lambda>r req. newOrder order r = Inr req) rows reqs \<and>
     issued (process_csv_orders env order w) =
       HttpsGet url # map CreateOrder reqs @ [CancelOrder (opt_member order ''id'')] \<and>
     world_after (process_csv_orders env order w) =
       snd (post_cancel env (after_calls (post_order env) w reqs) (opt_member order ''id''))"
proof -
  obtain kvs where obj: "order = Obj kvs"
    using note_string_is_object [OF assms(1)] by blast
  from create_orders_completes [OF assms(4,5), of "post_order env" rows
      "\<lparr>results = [], calls = [HttpsGet url], world = w\<rparr>"]
  obtain p where
    run: "create_orders (post_order env) order rows
            \<lparr>results = [], calls = [HttpsGet url], world = w\<rparr> = (None, p)"
    by blast
  from create_orders_None [OF run] obtain reqs where
    rel: "list_all2 (\<lambda>r req. newOrder order r = Inr req) rows reqs"
    and cs: "calls p = [HttpsGet url] @ map CreateOrder reqs"
    and ws: "world p = after_calls (post_order env) w reqs"
    by auto
  have "process_csv_orders env order w =
     \<lparr>response = Some (processed (results p)),
      issued = calls p @ [CancelOrder (opt_member order ''id'')],
      world_after = snd (post_cancel env (world p) (opt_member order ''id''))\<rparr>"
    unfolding process_reaches_split [OF assms(1,2,3,5)]
    by (rule split_order_cancels [OF run obj assms(6)])
  with rel cs ws show ?thesis by auto
qed

theorem one_creation_per_row_then_one_cancellation_witness:
  "opt_member gift_order ''note'' = Str (lit ''see https://cdn.io/l.csv for addresses'') \<and>
   csvUrlMatch (lit ''see https://cdn.io/l.csv for addresses'') = Some list_url \<and>
   https_get shop list_url = Response 200 (Rows [jane, bob]) \<and>
   map_line_items gift_order = Inr [\<lparr>variant_id = Num 42, quantity = Num 2\<rparr>] \<and>
   convertible (order_label gift_order) \<and>
   convertible (opt_member gift_order ''id'') \<and>
   (\<exists>reqs. list_all2 (\<lambda>r req. newOrder gift_order r = Inr req) [jane, bob] reqs \<and>
      issued (process_csv_orders shop gift_order 0) =
        HttpsGet list_url # map CreateOrder reqs @ [CancelOrder (Num 7)]) \<and>
   world_after (process_csv_orders shop gift_order 0) = 3"
proof -
  have get: "https_get shop list_url = Response 200 (Rows [jane, bob])"
    by (simp add: shop_def)
  from one_creation_per_row_then_one_cancellation
    [OF gift_order_note gift_order_match get gift_order_items gift_order_label
      gift_order_id_converts, of 0, unfolded gift_order_id]
  obtain reqs where
    rel: "list_all2 (\<lambda>r req. newOrder gift_order r = Inr req) [jane, bob] reqs"
    and tr: "issued (process_csv_orders shop gift_order 0) =
        HttpsGet list_url # map CreateOrder reqs @ [CancelOrder (Num 7)]"
    and ws: "world_after (process_csv_orders shop gift_order 0) =
        snd (post_cancel shop (after_calls (post_order shop) 0 reqs) (Num 7))"
    by blast
  from rel have "length reqs = 2"
    by (auto dest: list_all2_lengthD)
  with ws have "world_after (process_csv_orders shop gift_order 0) = 3"
    by (simp add: shop_counts_calls) (simp add: shop_def)
  with rel tr gift_order_note gift_order_match get gift_order_items gift_order_label
    gift_order_id_converts
  show ?thesis by blast
qed



text \<open>
  C7. For a run that reaches the cancellation step (the CSV was decoded and the loop over
  the rows ended, in \<open>p\<close>) for an order whose name and identifier convert to text: whatever
  the cancellation call does, fail or succeed, the response is the same HTTP 200 body with
  the message and the results of the loop, and the cancellation call is made exactly once,
  as the last call: the platform is left in the state that one call gives from the state
  the loop left.
\<close>

theorem cancellation_failure_keeps_response:
  assumes "opt_member order ''note'' = Str note"
    and "csvUrlMatch note = Some url"
    and "https_get env url = Response st (Rows rows)"
    and "create_orders (post_order env) order rows
           \<lparr>results = [], calls = [HttpsGet url], world = w\<rparr> = (None, p)"
    and "convertible (order_label order)"
    and "convertible (opt_member order ''id'')"
  shows "response (process_csv_orders (env\<lparr>post_cancel := cancel\<rparr>) order w) =
           response (process_csv_orders env order w) \<and>
         response (process_csv_orders (env\<lparr>post_cancel := cancel\<rparr>) order w) =
           Some (processed (results p)) \<and>
         status (processed (results p)) = 200 \<and>
         (\<exists>reqs. issued (process_csv_orders (env\<lparr>post_cancel := cancel\<rparr>) order w) =
            HttpsGet url # map CreateOrder reqs @ [CancelOrder (opt_member order ''id'')]) \<and>
         world_after (process_csv_orders (env\<lparr>post_cancel := cancel\<rparr>) order w) =
           snd (cancel (world p) (opt_member order ''id''))"
proof -
  obtain kvs where obj: "order = Obj kvs"
    using note_string_is_object [OF assms(1)] by blast
  have get: "https_get (env\<lparr>post_cancel := cancel\<rparr>) url = Response st (Rows rows)"
    using assms(3) by simp
  have run: "create_orders (post_order (env\<lparr>post_cancel := cancel\<rparr>)) order rows
           \<lparr>results = [], calls = [HttpsGet url], world = w\<rparr> = (None, p)"
    using assms(4) by simp
  from create_orders_None [OF assms(4)] obtain reqs where
    cs: "calls p = [HttpsGet url] @ map CreateOrder reqs"
    by auto
  have a: "process_csv_orders env order w =
     \<lparr>response = Some (processed (results p)),
      issued = calls p @ [CancelOrder (opt_member order ''id'')],
      world_after = snd (post_cancel env (world p) (opt_member order ''id''))\<rparr>"
    unfolding process_reaches_split [OF assms(1,2,3,5)]
    by (rule split_order_cancels [OF assms(4) obj assms(6)])
  have b: "process_csv_orders (env\<lparr>post_cancel := cancel\<rparr>) order w =
     \<lparr>response = Some (processed (results p)),
      issued = calls p @ [CancelOrder (opt_member order ''id'')],
      world_after = snd (post_cancel (env\<lparr>post_cancel := cancel\<rparr>) (world p)
        (opt_member order ''id''))\<rparr>"
    unfolding process_reaches_split [OF assms(1,2) get assms(5)]
    by (rule split_order_cancels [OF run obj assms(6)])
  have "status (processed (results p)) = 200"
    by (simp add: processed_def)
  with a b cs show ?thesis by auto
qed

theorem cancellation_failure_keeps_response_witness:
  "opt_member gift_order ''note'' = Str (lit ''see https://cdn.io/l.csv for addresses'') \<and>
   csvUrlMatch (lit ''see https://cdn.io/l.csv for addresses'') = Some list_url \<and>
   https_get shop list_url = Response 200 (Rows [jane, bob]) \<and>
   convertible (order_label gift_order) \<and>
   convertible (opt_member gift_order ''id'') \<and>
   fst (refuse_cancel 2 (Num 7)) = Rejected (lit ''Request failed with status code 404'') \<and>
   (\<exists>p. create_orders (post_order shop) gift_order [jane, bob]
           \<lparr>results = [], calls = [HttpsGet list_url], world = 0\<rparr> = (None, p) \<and>
        response (process_csv_orders (shop\<lparr>post_cancel := refuse_cancel\<rparr>) gift_order 0) =
          response (process_csv_orders shop gift_order 0) \<and>
        response (process_csv_orders (shop\<lparr>post_cancel := refuse_cancel\<rparr>) gift_order 0) =
          Some (processed (results p)) \<and>
        (\<exists>reqs. issued (process_csv_orders (shop\<lparr>post_cancel := refuse_cancel\<rparr>) gift_order 0) =
           HttpsGet list_url # map CreateOrder reqs @ [CancelOrder (Num 7)]) \<and>
        world_after (process_csv_orders (shop\<lparr>post_cancel := refuse_cancel\<rparr>) gift_order 0) =
          snd (refuse_cancel (world p) (Num 7)))"
proof -
  have get: "https_get shop list_url = Response 200 (Rows [jane, bob])"
    by (simp add: shop_def)
  have refuse: "fst (refuse_cancel 2 (Num 7)) = Rejected (lit ''Request failed with status code 404'')"
    by (simp add: refuse_cancel_def)
  from create_orders_completes [OF gift_order_items gift_order_label, of "post_order shop"
      "[jane, bob]" "\<lparr>results = [], calls = [HttpsGet list_url], world = 0\<rparr>"]
  obtain p where run: "create_orders (post_order shop) gift_order [jane, bob]
           \<lparr>results = [], calls = [HttpsGet list_url], world = 0\<rparr> = (None, p)"
    by blast
  from cancellation_failure_keeps_response
    [OF gift_order_note gift_order_match get run gift_order_label gift_order_id_converts,
      of refuse_cancel, unfolded gift_order_id]
    gift_order_note gift_order_match get refuse run gift_order_label gift_order_id_converts
  show ?thesis by blast
qed

section \<open>Orders that are not split\<close>

text \<open>
  C4. For a webhook order whose note is a string that contains no substring
  \<open>https://\<close>, one or more code units other than white space, \<open>.csv\<close>, and whose name (or
  identifier, when it has no name) converts to text: the handler answers HTTP 200 with the
  skip message, makes no outbound call (no CSV fetch, no creation, no cancellation) and
  leaves the platform as it was.
\<close>

theorem no_csv_link_is_skipped:
  assumes "opt_member order ''note'' = Str note"
    and "\<not> contains_csv_url note"
    and "convertible (order_label order)"
  shows "process_csv_orders env order w =
           \<lparr>response = Some skipped, issued = [], world_after = w\<rparr> \<and> status skipped = 200"
proof -
  have "or_js (opt_member order ''note'') (Str []) = Str note"
    using assms(1) by (simp add: or_js_def)
  moreover have "csvUrlMatch note = None"
    using assms(2) by (simp add: csvUrlMatch_None_iff)
  ultimately show ?thesis
    using assms(3) by (simp add: process_csv_orders_def skipped_def interpolate_def)
qed

theorem no_csv_link_is_skipped_witness:
  "opt_member plain_order ''note'' = Str (lit ''leave at the door'') \<and>
   \<not> contains_csv_url (lit ''leave at the door'') \<and>
   convertible (order_label plain_order) \<and>
   process_csv_orders shop plain_order 0 =
     \<lparr>response = Some skipped, issued = [], world_after = 0\<rparr>"
proof -
  have no: "\<not> contains_csv_url (lit ''leave at the door'')"
    using plain_note_no_match by (simp add: csvUrlMatch_None_iff)
  from no_csv_link_is_skipped [OF plain_order_note no plain_order_label, of shop 0]
    plain_order_note no plain_order_label
  show ?thesis by simp
qed

text \<open>
  A payload of any shape whose \<open>note\<close> is missing or \<open>null\<close> is skipped in the same way,
  the note counting as the empty string, when what the log lines substitute for its name
  converts to text: every payload that is not an object, and every object whose name and
  identifier are texts or numbers.
\<close>

lemma missing_note_is_skipped:
  assumes "opt_member payload ''note'' = Undefined \<or> opt_member payload ''note'' = Null"
    and "convertible (order_label payload)"
  shows "or_js (opt_member payload ''note'') (Str []) = Str [] \<and>
         csvUrlMatch [] = None \<and>
         process_csv_orders env payload w =
           \<lparr>response = Some skipped, issued = [], world_after = w\<rparr> \<and>
         status skipped = 200"
proof -
  have "or_js (opt_member payload ''note'') (Str []) = Str []"
    using assms(1) by (auto simp: or_js_def)
  then show ?thesis
    using assms(2) by (simp add: process_csv_orders_def skipped_def interpolate_def)
qed

lemma not_an_object_converts: "\<forall>kvs. payload \<noteq> Obj kvs \<Longrightarrow> convertible (order_label payload)"
  by (cases payload) (simp_all add: order_label_def or_js_def)

text \<open>
  C10. The handler is to answer every payload whose \<open>note\<close> is missing or \<open>null\<close> with the
  HTTP 200 skip response, raising no error. It does not when the payload's name is an
  object with a property \<open>toString\<close>: the first log line substitutes the name into its
  text, the conversion throws inside the outer \<open>try\<close>, and the answer is HTTP 500.
\<close>

theorem unconvertible_name_is_not_skipped:
  "opt_member unlabelled_payload ''note'' = Undefined \<and>
   process_csv_orders shop unlabelled_payload 0 =
     \<lparr>response = Some internal_error, issued = [], world_after = 0\<rparr> \<and>
   status internal_error = 500"
  by (simp add: process_csv_orders_def unlabelled_payload_def order_label_def or_js_def
      interpolate_def outer_catch_def internal_error_def lit_def)

section \<open>A CSV that cannot be fetched or decoded\<close>

text \<open>
  When the parser emits an error while the fetched body is decoded, the promise rejects
  and the outer \<open>catch\<close> answers HTTP 500 with no creation and no cancellation call.
\<close>

lemma parse_error_fails_whole_request:
  assumes "opt_member order ''note'' = Str note"
    and "csvUrlMatch note = Some url"
    and "https_get env url = Response st ParseError"
    and "convertible (order_label order)"
  shows "process_csv_orders env order w =
           \<lparr>response = Some internal_error, issued = [HttpsGet url], world_after = w\<rparr>"
proof -
  from assms(2) have "note \<noteq> []" by auto
  then have "or_js (opt_member order ''note'') (Str []) = Str note"
    using assms(1) by (simp add: or_js_def)
  then show ?thesis
    using assms(2,3,4) by (simp add: process_csv_orders_def interpolate_def outer_catch_def)
qed

text \<open>
  C3. A CSV fetch that fails is to fail the whole request: HTTP 500 with
  \<open>{error: "Internal server error"}\<close>, no creation call and no cancellation call. The
  handler does so for a parser error only. It never reads the status of the CSV response:
  when the CSV host answers 404 with a body that decodes to no rows, the workflow runs to
  its end, cancels the parent order and answers HTTP 200 with no results. It attaches no
  error listener to the request: when the CSV host cannot be reached, the promise never
  settles and no response is sent.
\<close>

theorem csv_fetch_failure_not_caught:
  "response (process_csv_orders csv_not_found gift_order 0) = Some (processed []) \<and>
   response (process_csv_orders csv_not_found gift_order 0) \<noteq> Some internal_error \<and>
   issued (process_csv_orders csv_not_found gift_order 0) =
     [HttpsGet list_url, CancelOrder (Num 7)] \<and>
   response (process_csv_orders csv_unreachable gift_order 0) = None \<and>
   issued (process_csv_orders csv_unreachable gift_order 0) = [HttpsGet list_url]"
proof -
  have a: "https_get csv_not_found list_url = Response 404 (Rows [])"
    by (simp add: csv_not_found_def)
  have "process_csv_orders csv_not_found gift_order 0 =
      split_order csv_not_found gift_order [] \<lparr>results = [], calls = [HttpsGet list_url], world = 0\<rparr>"
    by (rule process_reaches_split [OF gift_order_note gift_order_match a gift_order_label])
  then have b: "process_csv_orders csv_not_found gift_order 0 =
      \<lparr>response = Some (processed []), issued = [HttpsGet list_url, CancelOrder (Num 7)],
       world_after = 1\<rparr>"
    by (simp add: split_order_def cancel_parent_def interpolate_def csv_not_found_def shop_def
        gift_order_def lit_def)
  have "or_js (opt_member gift_order ''note'') (Str []) =
      Str (lit ''see https://cdn.io/l.csv for addresses'')"
    by (simp add: gift_order_note or_js_def lit_def)
  then have c: "process_csv_orders csv_unreachable gift_order 0 =
      \<lparr>response = None, issued = [HttpsGet list_url], world_after = 0\<rparr>"
    using gift_order_label
    by (simp add: process_csv_orders_def interpolate_def gift_order_match csv_unreachable_def)
  have "processed [] \<noteq> internal_error"
    by (simp add: processed_def internal_error_def)
  with b c show ?thesis by simp
qed

section \<open>The child order\<close>

text \<open>
  C5, amended. For an order whose \<open>line_items\<close> is an array of items other than \<open>null\<close>
  and whose name (or identifier, when it has no name) converts to text, and every CSV row:
  the child order has one line item per parent line item, in order, with the variant
  identifier as in the payload and the quantity as in the payload when that is truthy, 1
  otherwise; its country is \<open>United States\<close>, its financial status \<open>paid\<close>, and its tag is
  \<open>Created from CSV of order\<close> followed by the parent's name, or by its identifier when the
  name is falsy.
\<close>

theorem child_order_fields:
  assumes "opt_member order ''line_items'' = Arr items"
    and "\<forall>item \<in> set items. item \<noteq> Null \<and> item \<noteq> Undefined"
    and "convertible (order_label order)"
  shows "\<exists>req. newOrder order r = Inr req \<and>
     line_items req =
       map (\<lambda>item. \<lparr>variant_id = opt_member item ''variant_id'',
                     quantity = (if truthy (opt_member item ''quantity'')
                                 then opt_member item ''quantity'' else Num 1)\<rparr>) items \<and>
     country (shipping_address req) = lit ''United States'' \<and>
     financial_status req = lit ''paid'' \<and>
     tags req = Template (lit ''Created from CSV of order '')
                  (if truthy (opt_member order ''name'') then opt_member order ''name''
                   else opt_member order ''id'')"
proof -
  from assms(1) obtain kvs where "order = Obj kvs"
    by (cases order) simp_all
  then have "member order ''line_items'' = Inr (Arr items)"
    using assms(1) by simp
  then have "map_line_items order =
     Inr (map (\<lambda>item. \<lparr>variant_id = opt_member item ''variant_id'',
                        quantity = or_js (opt_member item ''quantity'') (Num 1)\<rparr>) items)"
    using map_items_objects [OF assms(2)] by (simp add: map_line_items_def)
  then show ?thesis
    using assms(3) by (simp add: newOrder_def interpolate_def) (simp add: order_label_def or_js_def)
qed

theorem child_order_fields_witness:
  "opt_member zero_quantity_order ''line_items'' = Arr [zero_quantity_item] \<and>
   zero_quantity_item \<noteq> Null \<and> zero_quantity_item \<noteq> Undefined \<and>
   convertible (order_label zero_quantity_order) \<and>
   (\<exists>req. newOrder zero_quantity_order jane = Inr req \<and>
      line_items req = [\<lparr>variant_id = Num 42, quantity = Num 1\<rparr>] \<and>
      country (shipping_address req) = lit ''United States'' \<and>
      financial_status req = lit ''paid'' \<and>
      tags req = Template (lit ''Created from CSV of order '') (Num 9))"
proof -
  have a: "opt_member zero_quantity_order ''line_items'' = Arr [zero_quantity_item]"
    by (simp add: zero_quantity_order_def lit_def)
  have b: "\<forall>item \<in> set [zero_quantity_item]. item \<noteq> Null \<and> item \<noteq> Undefined"
    by (simp add: zero_quantity_item_def)
  have c: "opt_member zero_quantity_item ''variant_id'' = Num 42"
    "opt_member zero_quantity_item ''quantity'' = Num 0"
    "opt_member zero_quantity_order ''name'' = Undefined"
    "opt_member zero_quantity_order ''id'' = Num 9"
    by (simp_all add: zero_quantity_order_def zero_quantity_item_def lit_def)
  have d: "zero_quantity_item \<noteq> Null \<and> zero_quantity_item \<noteq> Undefined"
    using b by simp
  have e: "convertible (order_label zero_quantity_order)"
    by (simp add: order_label_def or_js_def c)
  from child_order_fields [OF a b e, of jane] a d e show ?thesis
    by (simp add: c)
qed

text \<open>
  C5 as stated has the quantity exactly as in the payload: a line item of quantity 0 is
  carried with quantity 1.
\<close>

theorem quantity_not_verbatim_counterexample:
  "map_sum id line_items (newOrder zero_quantity_order jane) =
     Inr [\<lparr>variant_id = Num 42, quantity = Num 1\<rparr>] \<and>
   verbatim_line_items [zero_quantity_item] = [\<lparr>variant_id = Num 42, quantity = Num 0\<rparr>] \<and>
   map_sum id line_items (newOrder zero_quantity_order jane) \<noteq>
     Inr (verbatim_line_items [zero_quantity_item])"
  by (simp add: newOrder_def map_line_items_def zero_quantity_order_def zero_quantity_item_def
      verbatim_line_items_def order_label_def interpolate_def or_js_def lit_def)

text \<open>
  C6, amended. For every CSV row: the full name is the row's name, or \<open>Gift Recipient\<close>
  when the name is missing or empty. Split on single spaces into tokens (which, joined by
  spaces, give the full name back, and hold no space), it gives the first token as the
  first name and the remaining tokens joined by spaces as the last name, or \<open>Recipient\<close>
  when that joined text is empty. The email is the row's email, or the placeholder when it
  is missing or empty.
\<close>

theorem customer_name_split:
  assumes "join_space (first # remaining) = fullName r"
    and "\<forall>token \<in> set (first # remaining). 0x20 \<notin> set token"
  shows "fullName r =
           (case field r ''name'' of
              None \<Rightarrow> lit ''Gift Recipient''
            | Some n \<Rightarrow> if n = [] then lit ''Gift Recipient'' else n) \<and>
         customer_of r =
           \<lparr>first_name = first,
            last_name = (if join_space remaining = [] then lit ''Recipient''
                         else join_space remaining),
            email = (case field r ''email'' of
                       None \<Rightarrow> lit ''placeholder@example.com''
                     | Some e \<Rightarrow> if e = [] then lit ''placeholder@example.com'' else e)\<rparr>"
proof -
  have "split_space (fullName r) = (first, remaining)"
    using split_space_unique [OF assms(2)] assms(1) by simp
  then show ?thesis
    by (simp add: customer_of_def fullName_def or_default_def split: option.splits)
qed

theorem customer_name_split_witness:
  "join_space [lit ''Jane'', lit ''Doe''] = fullName jane \<and>
   0x20 \<notin> set (lit ''Jane'') \<and> 0x20 \<notin> set (lit ''Doe'') \<and>
   customer_of jane =
     \<lparr>first_name = lit ''Jane'', last_name = lit ''Doe'', email = lit ''jane@x.com''\<rparr> \<and>
   join_space [lit ''Bob''] = fullName bob \<and>
   0x20 \<notin> set (lit ''Bob'') \<and>
   customer_of bob =
     \<lparr>first_name = lit ''Bob'', last_name = lit ''Recipient'',
      email = lit ''placeholder@example.com''\<rparr>"
proof -
  have a: "join_space [lit ''Jane'', lit ''Doe''] = fullName jane"
    by (simp add: fullName_def field_def jane_def or_default_def lit_def)
  have b: "\<forall>token \<in> set [lit ''Jane'', lit ''Doe'']. 0x20 \<notin> set token"
    by (simp add: lit_def)
  have c: "join_space [lit ''Bob''] = fullName bob"
    by (simp add: fullName_def field_def bob_def or_default_def lit_def)
  have d: "\<forall>token \<in> set [lit ''Bob'']. 0x20 \<notin> set token"
    by (simp add: lit_def)
  have e: "field jane ''email'' = Some (lit ''jane@x.com'')" "field bob ''email'' = None"
    by (simp_all add: field_def jane_def bob_def lit_def)
  have j: "customer_of jane =
     \<lparr>first_name = lit ''Jane'', last_name = lit ''Doe'', email = lit ''jane@x.com''\<rparr>"
    using customer_name_split [OF a b] by (simp add: e lit_def)
  have k: "customer_of bob =
     \<lparr>first_name = lit ''Bob'', last_name = lit ''Recipient'',
      email = lit ''placeholder@example.com''\<rparr>"
    using customer_name_split [OF c d] by (simp add: e)
  from b d have "0x20 \<notin> set (lit ''Jane'')" "0x20 \<notin> set (lit ''Doe'')"
    "0x20 \<notin> set (lit ''Bob'')"
    by simp_all
  with a c j k show ?thesis by blast
qed

text \<open>
  C6 as stated gives \<open>Recipient\<close> only when there are no remaining tokens: the name
  \<open>Bob\<close> with a trailing space splits into \<open>Bob\<close> and one empty token, whose join is
  empty, and the handler gives \<open>Recipient\<close> where the rule as worded gives the empty text.
\<close>

theorem trailing_space_counterexample:
  "last_name (customer_of bob_trailing_space) = lit ''Recipient'' \<and>
   last_name (spec_customer bob_trailing_space) = [] \<and>
   customer_of bob_trailing_space \<noteq> spec_customer bob_trailing_space"
proof -
  have a: "last_name (customer_of bob_trailing_space) = lit ''Recipient''"
    by (simp add: customer_of_def fullName_def field_def bob_trailing_space_def
        or_default_def lit_def)
  have b: "last_name (spec_customer bob_trailing_space) = []"
    by (simp add: spec_customer_def field_def bob_trailing_space_def or_default_def lit_def)
  have "lit ''Recipient'' \<noteq> []" by (simp add: lit_def)
  with a b show ?thesis by auto
qed

section \<open>The CSV export\<close>

text \<open>
  C8. For every body of /generate-csv that is an empty array or not an array, and whatever
  json2csv would do: the answer is HTTP 400 with the text \<open>Invalid data\<close>, and no CSV.
\<close>

theorem invalid_data_is_rejected:
  assumes "data = Arr [] \<or> (\<forall>xs. data \<noteq> Arr xs)"
  shows "generate_csv parse data = \<lparr>status = 400, body = Text (lit ''Invalid data'')\<rparr>"
  using assms by (cases data) (auto simp: generate_csv_def split: list.splits)

theorem invalid_data_is_rejected_witness:
  "generate_csv any_parser (Arr []) = \<lparr>status = 400, body = Text (lit ''Invalid data'')\<rparr> \<and>
   (\<forall>xs. Obj [(lit ''a'', Num 1)] \<noteq> Arr xs) \<and>
   generate_csv any_parser (Obj [(lit ''a'', Num 1)]) =
     \<lparr>status = 400, body = Text (lit ''Invalid data'')\<rparr>"
proof -
  have b: "\<forall>xs. Obj [(lit ''a'', Num 1)] \<noteq> Arr xs" by simp
  from invalid_data_is_rejected [OF disjI1, OF refl, of any_parser]
    invalid_data_is_rejected [OF disjI2, OF b, of any_parser] b
  show ?thesis by simp
qed

end
